theory Spec2Isabelle
  imports Complex_Main "HOL-Library.Multiset"
begin

section \<open>Strings\<close>

text \<open>
  A JavaScript string is a sequence of UTF-16 code units, and \<open>length\<close> counts code
  units; so a string is a list of code units here. \<open>js\<close> reads a literal of the source.
\<close>

type_synonym jsstring = "nat list"

definition js :: "string \<Rightarrow> jsstring" where
  "js s = map of_char s"

text \<open>
  \<open>String.prototype.trim\<close> removes WhiteSpace and LineTerminator code units from both
  ends: TAB, LF, VT, FF, CR, SP, NBSP, the Unicode space separators, LS, PS and the
  byte order mark.
\<close>

definition line_terminator :: "nat \<Rightarrow> bool" where
  "line_terminator c = (c = 0x0A \<or> c = 0x0D \<or> c = 0x2028 \<or> c = 0x2029)"

definition white_space :: "nat \<Rightarrow> bool" where
  "white_space c =
     (c = 0x09 \<or> c = 0x0B \<or> c = 0x0C \<or> c = 0x20 \<or> c = 0xA0 \<or> c = 0x1680 \<or>
      (0x2000 \<le> c \<and> c \<le> 0x200A) \<or> c = 0x202F \<or> c = 0x205F \<or> c = 0x3000 \<or>
      c = 0xFEFF)"

definition trimmable :: "nat \<Rightarrow> bool" where
  "trimmable c = (white_space c \<or> line_terminator c)"

definition trim :: "jsstring \<Rightarrow> jsstring" where
  "trim s = rev (dropWhile trimmable (rev (dropWhile trimmable s)))"

section \<open>The schema: models/TelegramLink\<close>

subsection \<open>The validator of \<open>telegram_link\<close>\<close>

text \<open>
  The source tests \<^verbatim>\<open>/^https?:\/\/(t\.me|telegram\.me)\/.+/\<close>. A matcher maps a string to
  the remainders it can leave after matching a prefix of it; the expression has no flag, so
  a dot takes any code unit but a line terminator, and it has no \<^verbatim>\<open>$\<close>, so any remainder
  is a match. \<open>test\<close> starts at the beginning of the string only (\<^verbatim>\<open>^\<close>).
\<close>

type_synonym matcher = "jsstring \<Rightarrow> jsstring list"

definition lit :: "string \<Rightarrow> matcher" where
  "lit p s = (if take (length p) s = js p then [drop (length p) s] else [])"

definition opt :: "matcher \<Rightarrow> matcher" where
  "opt m s = m s @ [s]"

definition alt :: "matcher \<Rightarrow> matcher \<Rightarrow> matcher" where
  "alt m n s = m s @ n s"

definition seq :: "matcher \<Rightarrow> matcher \<Rightarrow> matcher" where
  "seq m n s = concat (map n (m s))"

text \<open>\<^verbatim>\<open>.+\<close>: one or more code units, none of them a line terminator.\<close>

fun dots :: matcher where
  "dots [] = []"
| "dots (c # cs) = (if line_terminator c then [] else cs # dots cs)"

definition telegram_link_regex :: matcher where
  "telegram_link_regex =
     seq (lit ''http'') (seq (opt (lit ''s'')) (seq (lit ''://'')
       (seq (alt (lit ''t.me'') (lit ''telegram.me'')) (seq (lit ''/'') dots))))"

definition validator :: "jsstring \<Rightarrow> bool" where
  "validator v = (telegram_link_regex v \<noteq> [])"

subsection \<open>Validation of the two paths\<close>

text \<open>
  Each path runs its validators in the order of the schema (\<open>required\<close> first: a string
  is present when its length is not 0) and reports the message of the first that fails.
  The values are the ones the \<open>trim\<close> setter has produced.
\<close>

definition validate_telegram_link :: "jsstring \<Rightarrow> string option" where
  "validate_telegram_link v =
     (if length v = 0 then Some ''Telegram link is required''
      else if \<not> validator v then Some ''Please provide a valid Telegram link''
      else None)"

definition validate_owner_name :: "jsstring \<Rightarrow> string option" where
  "validate_owner_name v =
     (if length v = 0 then Some ''Owner name is required''
      else if length v < 2 then Some ''Owner name must be at least 2 characters long''
      else if 100 < length v then Some ''Owner name cannot exceed 100 characters''
      else None)"

text \<open>The messages of a \<open>ValidationError\<close>, one for each path that fails.\<close>

definition validate :: "jsstring \<Rightarrow> jsstring \<Rightarrow> string list" where
  "validate l n =
     (case validate_telegram_link l of None \<Rightarrow> [] | Some m \<Rightarrow> [m]) @
     (case validate_owner_name n of None \<Rightarrow> [] | Some m \<Rightarrow> [m])"

text \<open>
  An update is validated path by path as well, but in the order of the update document:
  the cast of the update moves the fields of \<^verbatim>\<open>{ telegram_link, owner_name }\<close> under
  \<open>$set\<close> from the last to the first, so \<open>owner_name\<close> comes first there.
\<close>

definition validate_update :: "jsstring \<Rightarrow> jsstring \<Rightarrow> string list" where
  "validate_update l n =
     (case validate_owner_name n of None \<Rightarrow> [] | Some m \<Rightarrow> [m]) @
     (case validate_telegram_link l of None \<Rightarrow> [] | Some m \<Rightarrow> [m])"

subsection \<open>Documents and the collection\<close>

text \<open>
  \<open>oid\<close> is the document's \<open>_id\<close>. The driver makes an ObjectId from a counter of the
  process (with a time stamp and a random part); the counter alone is kept here, so every
  document constructed receives an identifier not issued before. Times are milliseconds.
  The collection keeps its documents in the order of insertion.
\<close>

record link_doc =
  oid :: nat
  telegram_link :: jsstring
  owner_name :: jsstring
  createdAt :: int
  updatedAt :: int

record state =
  docs :: "link_doc list"
  oid_counter :: nat

definition empty_state :: state where
  "empty_state = \<lparr>docs = [], oid_counter = 0\<rparr>"

text \<open>
  What a request meets outside the program: the clock, and the store call of the request
  (counted from 0) that fails, if one does. A failing call throws and changes nothing.
\<close>

record env =
  now :: int
  fault :: "nat option"

text \<open>
  The route parameter \<open>:id\<close> is a string that the driver casts to an ObjectId; the cast
  throws a \<open>CastError\<close> on a string that is not one.
\<close>

datatype id_param = Oid nat | Malformed

fun remove_first :: "('a \<Rightarrow> bool) \<Rightarrow> 'a list \<Rightarrow> 'a list" where
  "remove_first P [] = []"
| "remove_first P (x # xs) = (if P x then xs else x # remove_first P xs)"

fun replace_first :: "('a \<Rightarrow> bool) \<Rightarrow> 'a \<Rightarrow> 'a list \<Rightarrow> 'a list" where
  "replace_first P y [] = []"
| "replace_first P y (x # xs) = (if P x then y # xs else x # replace_first P y xs)"

section \<open>Responses\<close>

text \<open>
  A response is a status and a JSON body. An ObjectId and a date are written by the driver
  as strings; they are kept as they are.
\<close>

datatype json =
  JNull | JBool bool | JNum int | JStr jsstring | JOid nat | JDate int
  | JArr "json list" | JObj "(string \<times> json) list"

record response =
  status :: nat
  body :: json

definition doc_json :: "link_doc \<Rightarrow> json" where
  "doc_json d = JObj
     [(''_id'', JOid (oid d)),
      (''telegram_link'', JStr (telegram_link d)),
      (''owner_name'', JStr (owner_name d)),
      (''createdAt'', JDate (createdAt d)),
      (''updatedAt'', JDate (updatedAt d)),
      (''__v'', JNum 0)]"

definition failure :: "nat \<Rightarrow> string \<Rightarrow> response" where
  "failure code msg =
     \<lparr>status = code, body = JObj [(''success'', JBool False), (''error'', JStr (js msg))]\<rparr>"

definition validation_failure :: "string list \<Rightarrow> response" where
  "validation_failure msgs =
     \<lparr>status = 400,
      body = JObj [(''success'', JBool False), (''error'', JStr (js ''Validation error'')),
                   (''details'', JArr (map (\<lambda>m. JStr (js m)) msgs))]\<rparr>"

definition missing_fields :: response where
  "missing_fields = failure 400 ''Both telegram_link and owner_name are required''"

definition duplicate_link :: response where
  "duplicate_link = failure 409 ''Telegram link already exists''"

definition not_found :: response where
  "not_found = failure 404 ''Telegram link not found''"

section \<open>The routes: routes/telegramLinks\<close>

subsection \<open>\<open>GET /\<close>\<close>

text \<open>
  \<open>page\<close> and \<open>limit\<close> hold the integer that \<open>parseInt\<close> has read from the
  parameter, \<open>None\<close> when the parameter is absent (the defaults 1 and 10 apply then);
  \<open>search\<close> is the parameter's string. A parameter in which \<open>parseInt\<close> reads no
  integer is not covered. Numbers are integers below \<open>2 ^ 53\<close>, where the arithmetic of
  the source is exact.
\<close>

record list_query =
  page :: "int option"
  limit :: "int option"
  search :: "jsstring option"

text \<open>
  The regular expressions of \<open>$regex\<close> belong to the database, not to the program. An
  engine stands for what the driver and the database make of the operand of \<open>$regex\<close>
  and of the string of \<open>$options\<close>: it maps them to the test whether a string has a
  match somewhere, or to \<open>None\<close> when the pattern does not compile (the query fails
  then). The routes take the engine as a parameter.
\<close>

type_synonym engine = "jsstring \<Rightarrow> string \<Rightarrow> (jsstring \<Rightarrow> bool) option"

text \<open>
  The two queries the route builds: \<open>{}\<close>, and \<open>$or\<close> of the same \<open>$regex\<close> and the
  same \<open>$options\<close> on \<open>telegram_link\<close> and on \<open>owner_name\<close>.
\<close>

datatype query = Everything | Or_regex jsstring string

definition selects :: "engine \<Rightarrow> query \<Rightarrow> (link_doc \<Rightarrow> bool) option" where
  "selects rx q =
     (case q of
        Everything \<Rightarrow> Some (\<lambda>d. True)
      | Or_regex s opts \<Rightarrow>
          (case rx s opts of
             None \<Rightarrow> None
           | Some m \<Rightarrow> Some (\<lambda>d. m (telegram_link d) \<or> m (owner_name d))))"

text \<open>
  \<open>sort({createdAt: -1})\<close>; documents of equal \<open>createdAt\<close> stay in the order of the
  collection (the database promises no order among them).
\<close>

definition find_sorted :: "(link_doc \<Rightarrow> bool) \<Rightarrow> link_doc list \<Rightarrow> link_doc list" where
  "find_sorted P ds = sort_key (\<lambda>d. - createdAt d) (filter P ds)"

text \<open>
  \<open>skip(n).limit(m)\<close>: a limit of 0 is no limit, and a negative limit is taken by its
  absolute value. A negative skip is refused by the database (see \<open>get_list\<close>).
\<close>

definition skip_limit :: "int \<Rightarrow> int \<Rightarrow> 'a list \<Rightarrow> 'a list" where
  "skip_limit k m xs =
     (let ys = drop (nat k) xs in if m = 0 then ys else take (nat \<bar>m\<bar>) ys)"

text \<open>
  \<open>Math.ceil(total / limitNum)\<close>: a division by 0 gives a number that is not finite, which
  JSON writes as \<open>null\<close>.
\<close>

definition total_pages :: "int \<Rightarrow> int \<Rightarrow> json" where
  "total_pages n limitNum =
     (if limitNum = 0 then JNull else JNum (- ((- n) div limitNum)))"

definition list_ok :: "link_doc list \<Rightarrow> int \<Rightarrow> int \<Rightarrow> int \<Rightarrow> response" where
  "list_ok ds pageNum limitNum n =
     \<lparr>status = 200,
      body = JObj
        [(''success'', JBool True),
         (''data'', JArr (map doc_json ds)),
         (''pagination'', JObj
            [(''currentPage'', JNum pageNum),
             (''totalPages'', total_pages n limitNum),
             (''totalItems'', JNum n),
             (''itemsPerPage'', JNum limitNum)])]\<rparr>"

text \<open>
  \<^verbatim>\<open>const { page = 1, limit = 10, search = '' } = req.query\<close>, and the query:
  \<^verbatim>\<open>if (search)\<close> is false for the empty string, and the options are \<^verbatim>\<open>'i'\<close>.
\<close>

definition page_num :: "list_query \<Rightarrow> int" where
  "page_num q = (case page q of None \<Rightarrow> 1 | Some n \<Rightarrow> n)"

definition limit_num :: "list_query \<Rightarrow> int" where
  "limit_num q = (case limit q of None \<Rightarrow> 10 | Some n \<Rightarrow> n)"

definition query_of :: "list_query \<Rightarrow> query" where
  "query_of q =
     (let srch = (case search q of None \<Rightarrow> [] | Some s \<Rightarrow> s)
      in if srch \<noteq> [] then Or_regex srch ''i'' else Everything)"

text \<open>
  \<open>find\<close> is the first store call and \<open>countDocuments\<close> the second. The database refuses
  a negative skip and a pattern that does not compile.
\<close>

definition listing :: "list_query \<Rightarrow> (link_doc \<Rightarrow> bool) \<Rightarrow> state \<Rightarrow> response" where
  "listing q P st =
     (let pageNum = page_num q;
          limitNum = limit_num q;
          skip = (pageNum - 1) * limitNum;
          telegramLinks = skip_limit skip limitNum (find_sorted P (docs st));
          total = int (length (filter P (docs st)))
      in list_ok telegramLinks pageNum limitNum total)"

definition get_list :: "engine \<Rightarrow> env \<Rightarrow> list_query \<Rightarrow> state \<Rightarrow> response" where
  "get_list rx e q st =
     (if fault e = Some 0 \<or> (page_num q - 1) * limit_num q < 0
      then failure 500 ''Failed to fetch telegram links''
      else
        (case selects rx (query_of q) of
           None \<Rightarrow> failure 500 ''Failed to fetch telegram links''
         | Some P \<Rightarrow>
             if fault e = Some 1 then failure 500 ''Failed to fetch telegram links''
             else listing q P st))"

subsection \<open>\<open>GET /owners\<close> and \<open>GET /:id\<close>\<close>

definition get_owners :: "env \<Rightarrow> state \<Rightarrow> response" where
  "get_owners e st =
     (if fault e = Some 0 then failure 500 ''Failed to fetch owner names''
      else \<lparr>status = 200,
            body = JObj [(''success'', JBool True),
                         (''data'', JArr (map JStr (remdups (map owner_name (docs st)))))]\<rparr>)"

definition get_by_id :: "env \<Rightarrow> id_param \<Rightarrow> state \<Rightarrow> response" where
  "get_by_id e p st =
     (case p of
        Malformed \<Rightarrow> failure 500 ''Failed to fetch telegram link''
      | Oid i \<Rightarrow>
          if fault e = Some 0 then failure 500 ''Failed to fetch telegram link''
          else
            (case find (\<lambda>d. oid d = i) (docs st) of
               None \<Rightarrow> not_found
             | Some d \<Rightarrow>
                 \<lparr>status = 200,
                  body = JObj [(''success'', JBool True), (''data'', doc_json d)]\<rparr>))"

subsection \<open>\<open>POST /\<close>\<close>

text \<open>
  A field of the body is a string or is absent (\<open>None\<close>). \<open>required_fields\<close> is the guard
  \<^verbatim>\<open>!telegram_link || !owner_name\<close>: an absent field and the empty string are falsy.
\<close>

definition falsy :: "jsstring option \<Rightarrow> bool" where
  "falsy v = (case v of None \<Rightarrow> True | Some s \<Rightarrow> s = [])"

definition required_fields ::
  "jsstring option \<Rightarrow> jsstring option \<Rightarrow> (jsstring \<times> jsstring) option" where
  "required_fields tlink owner =
     (if falsy tlink \<or> falsy owner then None
      else
        (case tlink of
           None \<Rightarrow> None
         | Some l \<Rightarrow> (case owner of None \<Rightarrow> None | Some n \<Rightarrow> Some (l, n))))"

definition saved :: "nat \<Rightarrow> string \<Rightarrow> link_doc \<Rightarrow> response" where
  "saved code msg d =
     \<lparr>status = code,
      body = JObj [(''success'', JBool True), (''data'', doc_json d),
                   (''message'', JStr (js msg))]\<rparr>"

text \<open>
  The setter \<open>trim\<close> of the schema runs when a query is cast and when the document is
  constructed, so \<open>findOne\<close> looks for the trimmed link and the trimmed values are
  validated and stored. Constructing the document takes an identifier; \<open>save\<close> validates
  before it inserts, and the time stamps are set when it inserts.
\<close>

definition post :: "env \<Rightarrow> jsstring option \<Rightarrow> jsstring option \<Rightarrow> state \<Rightarrow> response \<times> state" where
  "post e tlink owner st =
     (case required_fields tlink owner of
        None \<Rightarrow> (missing_fields, st)
      | Some (l, n) \<Rightarrow>
          if fault e = Some 0 then (failure 500 ''Failed to create telegram link'', st)
          else
            (case find (\<lambda>d. telegram_link d = trim l) (docs st) of
               Some existingLink \<Rightarrow> (duplicate_link, st)
             | None \<Rightarrow>
                 (let d = \<lparr>oid = oid_counter st, telegram_link = trim l, owner_name = trim n,
                           createdAt = now e, updatedAt = now e\<rparr>;
                      st' = st\<lparr>oid_counter := Suc (oid_counter st)\<rparr>
                  in case validate (trim l) (trim n) of
                       m # ms \<Rightarrow> (validation_failure (m # ms), st')
                     | [] \<Rightarrow>
                         if fault e = Some 1
                         then (failure 500 ''Failed to create telegram link'', st')
                         else (saved 201 ''Telegram link created successfully'' d,
                               st'\<lparr>docs := docs st @ [d]\<rparr>))))"

subsection \<open>\<open>PUT /:id\<close>\<close>

text \<open>
  The first query casts the identifier (for \<open>$ne\<close>). \<open>findByIdAndUpdate\<close> with
  \<open>runValidators\<close> casts the update (the setters run), validates it, and only then asks the
  database, which changes one document and sets \<open>updatedAt\<close>.
\<close>

definition put ::
  "env \<Rightarrow> id_param \<Rightarrow> jsstring option \<Rightarrow> jsstring option \<Rightarrow> state \<Rightarrow> response \<times> state" where
  "put e p tlink owner st =
     (case required_fields tlink owner of
        None \<Rightarrow> (missing_fields, st)
      | Some (l, n) \<Rightarrow>
          (case p of
             Malformed \<Rightarrow> (failure 500 ''Failed to update telegram link'', st)
           | Oid i \<Rightarrow>
               if fault e = Some 0 then (failure 500 ''Failed to update telegram link'', st)
               else
                 (case find (\<lambda>d. telegram_link d = trim l \<and> oid d \<noteq> i) (docs st) of
                    Some existingLink \<Rightarrow> (duplicate_link, st)
                  | None \<Rightarrow>
                      (case validate_update (trim l) (trim n) of
                         m # ms \<Rightarrow> (validation_failure (m # ms), st)
                       | [] \<Rightarrow>
                           if fault e = Some 1
                           then (failure 500 ''Failed to update telegram link'', st)
                           else
                             (case find (\<lambda>d. oid d = i) (docs st) of
                                None \<Rightarrow> (not_found, st)
                              | Some d \<Rightarrow>
                                  (let d' = d\<lparr>telegram_link := trim l, owner_name := trim n,
                                              updatedAt := now e\<rparr>
                                   in (saved 200 ''Telegram link updated successfully'' d',
                                       st\<lparr>docs := replace_first (\<lambda>x. oid x = i) d'
                                                      (docs st)\<rparr>)))))))"

subsection \<open>\<open>DELETE /:id\<close>\<close>

definition deleted :: response where
  "deleted =
     \<lparr>status = 200,
      body = JObj [(''success'', JBool True),
                   (''message'', JStr (js ''Telegram link deleted successfully''))]\<rparr>"

definition delete ::
  "env \<Rightarrow> id_param \<Rightarrow> state \<Rightarrow> response \<times> state" where
  "delete e p st =
     (case p of
        Malformed \<Rightarrow> (failure 500 ''Failed to delete telegram link'', st)
      | Oid i \<Rightarrow>
          if fault e = Some 0 then (failure 500 ''Failed to delete telegram link'', st)
          else
            (case find (\<lambda>d. oid d = i) (docs st) of
               None \<Rightarrow> (not_found, st)
             | Some d \<Rightarrow> (deleted, st\<lparr>docs := remove_first (\<lambda>x. oid x = i) (docs st)\<rparr>)))"

section \<open>Sequences of requests\<close>

datatype request =
  Create env "jsstring option" "jsstring option"
  | Update env id_param "jsstring option" "jsstring option"
  | Delete env id_param

fun serve :: "state \<Rightarrow> request \<Rightarrow> state" where
  "serve st (Create e tlink owner) = snd (post e tlink owner st)"
| "serve st (Update e p tlink owner) = snd (put e p tlink owner st)"
| "serve st (Delete e p) = snd (delete e p st)"

text \<open>The state after a sequence of requests served one after the other, from the empty
  collection.\<close>

definition run :: "request list \<Rightarrow> state" where
  "run rs = foldl serve empty_state rs"

text \<open>What holds of every state the service reaches.\<close>

definition stored_well :: "link_doc \<Rightarrow> bool" where
  "stored_well d =
     (trim (telegram_link d) = telegram_link d \<and> validator (telegram_link d) \<and>
      trim (owner_name d) = owner_name d \<and> 2 \<le> length (owner_name d) \<and>
      length (owner_name d) \<le> 100)"

definition consistent :: "state \<Rightarrow> bool" where
  "consistent st =
     (distinct (map oid (docs st)) \<and> distinct (map telegram_link (docs st)) \<and>
      list_all (\<lambda>d. oid d < oid_counter st) (docs st) \<and> list_all stored_well (docs st))"

section \<open>The response envelope\<close>

fun is_string :: "json \<Rightarrow> bool" where
  "is_string (JStr s) = True"
| "is_string _ = False"

fun is_string_array :: "json \<Rightarrow> bool" where
  "is_string_array (JArr xs) = list_all is_string xs"
| "is_string_array _ = False"

fun is_object :: "json \<Rightarrow> bool" where
  "is_object (JObj kv) = True"
| "is_object _ = False"

fun flag :: "json option \<Rightarrow> bool option" where
  "flag (Some (JBool b)) = Some b"
| "flag _ = None"

definition success_shape :: "(string \<times> json) list \<Rightarrow> bool" where
  "success_shape kv =
     (list_all (\<lambda>k. k \<in> set [''success'', ''data'', ''message'', ''pagination'']) (map fst kv) \<and>
      (case map_of kv ''message'' of None \<Rightarrow> True | Some m \<Rightarrow> is_string m) \<and>
      (case map_of kv ''pagination'' of None \<Rightarrow> True | Some p \<Rightarrow> is_object p))"

definition failure_shape :: "(string \<times> json) list \<Rightarrow> bool" where
  "failure_shape kv =
     (list_all (\<lambda>k. k \<in> set [''success'', ''error'', ''details'']) (map fst kv) \<and>
      (case map_of kv ''error'' of None \<Rightarrow> False | Some m \<Rightarrow> is_string m) \<and>
      (case map_of kv ''details'' of None \<Rightarrow> True | Some d \<Rightarrow> is_string_array d))"

definition envelope :: "json \<Rightarrow> bool" where
  "envelope b =
     (case b of
        JObj kv \<Rightarrow>
          distinct (map fst kv) \<and>
          (case flag (map_of kv ''success'') of
             None \<Rightarrow> False
           | Some ok \<Rightarrow> if ok then success_shape kv else failure_shape kv)
      | _ \<Rightarrow> False)"

text \<open>
  The envelope of a response: its body has the shape, and \<open>success\<close> is false exactly
  when the status is an error status (400 and above).
\<close>

definition enveloped :: "response \<Rightarrow> bool" where
  "enveloped r =
     (envelope (body r) \<and>
      (case body r of
         JObj kv \<Rightarrow> flag (map_of kv ''success'') = Some (status r < 400)
       | _ \<Rightarrow> False))"

section \<open>Searching\<close>

text \<open>
  \<open>contains_ci f p s\<close>: the string \<open>s\<close> has a substring equal to \<open>p\<close> once both are
  folded by \<open>f\<close>, the case folding of a code unit.
\<close>

fun contains_ci :: "(nat \<Rightarrow> nat) \<Rightarrow> jsstring \<Rightarrow> jsstring \<Rightarrow> bool" where
  "contains_ci f p [] = (p = [])"
| "contains_ci f p (x # xs) =
     (map f (take (length p) (x # xs)) = map f p \<or> contains_ci f p xs)"

text \<open>
  The characters a regular expression gives a meaning to, and the patterns that have
  none of them: ASCII characters that stand for themselves, with no white space at
  either end (a setter of the schema may trim the operand of a query).
\<close>

definition metachar :: "nat \<Rightarrow> bool" where
  "metachar c =
     (c \<in> set [0x5C, 0x5E, 0x24, 0x2E, 0x5B, 0x5D, 0x7C, 0x28, 0x29, 0x3F, 0x2A, 0x2B,
               0x7B, 0x7D])"

definition literal_char :: "nat \<Rightarrow> bool" where
  "literal_char c = (0 < c \<and> c < 128 \<and> \<not> metachar c)"


definition ascii_fold :: "nat \<Rightarrow> nat" where
  "ascii_fold c = (if 0x41 \<le> c \<and> c \<le> 0x5A then c + 0x20 else c)"


text \<open>
  An engine to compute with, for patterns of literal characters and dots and for strings of
  ASCII characters: a dot takes any character but a line feed, a letter matches in
  either case when the options have \<open>i\<close> and in its own case otherwise, and a match may
  start anywhere. It declines every other pattern.
\<close>

datatype atom = Lit nat | Any

definition atom_of :: "nat \<Rightarrow> atom option" where
  "atom_of c = (if c = 0x2E then Some Any else if literal_char c then Some (Lit c) else None)"

fun compile :: "jsstring \<Rightarrow> atom list option" where
  "compile [] = Some []"
| "compile (c # cs) =
     (case atom_of c of
        None \<Rightarrow> None
      | Some a \<Rightarrow> (case compile cs of None \<Rightarrow> None | Some as \<Rightarrow> Some (a # as)))"

fun match_here :: "(nat \<Rightarrow> nat) \<Rightarrow> atom list \<Rightarrow> jsstring \<Rightarrow> bool" where
  "match_here f [] s = True"
| "match_here f (a # as) [] = False"
| "match_here f (Lit c # as) (x # xs) = (f x = f c \<and> match_here f as xs)"
| "match_here f (Any # as) (x # xs) = (x \<noteq> 0x0A \<and> match_here f as xs)"

fun match_anywhere :: "(nat \<Rightarrow> nat) \<Rightarrow> atom list \<Rightarrow> jsstring \<Rightarrow> bool" where
  "match_anywhere f as [] = match_here f as []"
| "match_anywhere f as (x # xs) = (match_here f as (x # xs) \<or> match_anywhere f as xs)"

definition small_engine :: engine where
  "small_engine p opts =
     (case compile p of
        None \<Rightarrow> None
      | Some as \<Rightarrow>
          Some (match_anywhere (if CHR ''i'' \<in> set opts then ascii_fold else (\<lambda>c. c)) as))"

section \<open>Examples\<close>

definition quiet :: env where
  "quiet = \<lparr>now = 5, fault = None\<rparr>"

definition alice :: link_doc where
  "alice = \<lparr>oid = 0, telegram_link = js ''https://t.me/alice'', owner_name = js ''Alice'',
            createdAt = 1, updatedAt = 1\<rparr>"

definition marc :: link_doc where
  "marc = \<lparr>oid = 1, telegram_link = js ''https://t.me/marc'', owner_name = js ''Marc'',
           createdAt = 2, updatedAt = 2\<rparr>"

definition two_docs :: state where
  "two_docs = \<lparr>docs = [alice, marc], oid_counter = 2\<rparr>"

text \<open>Twelve documents, created one millisecond after the other.\<close>

definition channel :: "nat \<Rightarrow> link_doc" where
  "channel k = \<lparr>oid = k, telegram_link = js ''https://t.me/channel'' @ [0x61 + k],
                owner_name = js ''Owner'', createdAt = int k, updatedAt = int k\<rparr>"

definition twelve :: state where
  "twelve = \<lparr>docs = map channel [0, 1, 2, 3, 4, 5, 6, 7, 8, 9, 10, 11], oid_counter = 12\<rparr>"

section \<open>Trimming\<close>

lemma trim_Nil: "trim [] = []"
  by (simp add: trim_def)

lemma dropWhile_hd: "xs \<noteq> [] \<Longrightarrow> \<not> P (hd xs) \<Longrightarrow> dropWhile P xs = xs"
  by (cases xs) auto

lemma trim_keeps: 
  assumes "s \<noteq> []" "\<not> trimmable (hd s)" "\<not> trimmable (last s)"
  shows "trim s = s"
proof -
  have a: "dropWhile trimmable s = s" using assms by (simp add: dropWhile_hd)
  have "rev s \<noteq> []" using assms by simp
  moreover have "hd (rev s) = last s" using assms by (simp add: hd_rev)
  ultimately have "dropWhile trimmable (rev s) = rev s" using assms by (simp add: dropWhile_hd)
  with a show ?thesis by (simp add: trim_def)
qed

lemma trim_ends:
  assumes "trim s \<noteq> []"
  shows "\<not> trimmable (hd (trim s))" "\<not> trimmable (last (trim s))"
proof -
  define u where "u = dropWhile trimmable s"
  define v where "v = dropWhile trimmable (rev u)"
  have t: "trim s = rev v" by (simp add: trim_def u_def v_def)
  with assms have v: "v \<noteq> []" by simp
  then have hv: "\<not> trimmable (hd v)" unfolding v_def by (simp add: hd_dropWhile)
  from v have u: "u \<noteq> []" unfolding v_def by auto
  then have hu: "\<not> trimmable (hd u)" unfolding u_def by (simp add: hd_dropWhile)
  have "rev u = takeWhile trimmable (rev u) @ v" by (simp add: v_def)
  then have "last (rev u) = last v" using v by (metis last_appendR)
  then have "last v = hd u" using u by (simp add: last_rev)
  then show "\<not> trimmable (hd (trim s))" using hu v t by (simp add: hd_rev)
  show "\<not> trimmable (last (trim s))" using hv v t by (simp add: last_rev)
qed

lemma trim_idem: "trim (trim s) = trim s"
proof (cases "trim s = []")
  case True then show ?thesis by (simp add: trim_Nil)
next
  case False then show ?thesis by (intro trim_keeps trim_ends) 
qed

lemma length_trim_le: "length (trim s) \<le> length s"
  unfolding trim_def
  by (metis length_rev length_dropWhile_le order_trans)

section \<open>The validators\<close>

lemma dots_nonempty: "dots s \<noteq> [] \<longleftrightarrow> (\<exists>c cs. s = c # cs \<and> \<not> line_terminator c)"
  by (cases s) auto

lemma set_lit: "r \<in> set (lit p s) \<longleftrightarrow> s = js p @ r"
  unfolding lit_def js_def
  by (auto simp: append_eq_conv_conj) (metis append_take_drop_id)

lemma seq_nonempty: "seq m n s \<noteq> [] \<longleftrightarrow> (\<exists>r. r \<in> set (m s) \<and> n r \<noteq> [])"
  by (auto simp: seq_def)

lemma set_opt: "r \<in> set (opt m s) \<longleftrightarrow> r \<in> set (m s) \<or> r = s"
  by (auto simp: opt_def)

lemma set_alt: "r \<in> set (alt m n s) \<longleftrightarrow> r \<in> set (m s) \<or> r \<in> set (n s)"
  by (auto simp: alt_def)

lemma validator_unfold:
  "validator v \<longleftrightarrow>
     (\<exists>r1 r2 r3 r4 r5. v = js ''http'' @ r1 \<and> (r1 = js ''s'' @ r2 \<or> r2 = r1) \<and>
        r2 = js ''://'' @ r3 \<and> (r3 = js ''t.me'' @ r4 \<or> r3 = js ''telegram.me'' @ r4) \<and>
        r4 = js ''/'' @ r5 \<and> dots r5 \<noteq> [])"
  unfolding validator_def telegram_link_regex_def seq_nonempty set_lit set_opt set_alt
  by blast

lemma validator_iff:
  "validator v \<longleftrightarrow>
     (\<exists>c cs. \<not> line_terminator c \<and>
        (v = js ''http://t.me/'' @ c # cs \<or> v = js ''https://t.me/'' @ c # cs \<or>
         v = js ''http://telegram.me/'' @ c # cs \<or> v = js ''https://telegram.me/'' @ c # cs))"
proof -
  have e: "js ''http://t.me/'' = js ''http'' @ js ''://'' @ js ''t.me'' @ js ''/''"
    "js ''https://t.me/'' = js ''http'' @ js ''s'' @ js ''://'' @ js ''t.me'' @ js ''/''"
    "js ''http://telegram.me/'' = js ''http'' @ js ''://'' @ js ''telegram.me'' @ js ''/''"
    "js ''https://telegram.me/'' = js ''http'' @ js ''s'' @ js ''://'' @ js ''telegram.me'' @ js ''/''"
    by (simp_all add: js_def)
  show ?thesis
    unfolding validator_unfold dots_nonempty e
    by (intro iffI; elim exE conjE disjE; simp; blast)
qed

lemma validator_nonempty: "validator v \<Longrightarrow> v \<noteq> []"
  by (auto simp: validator_unfold js_def)

section \<open>What every reachable state satisfies\<close>

lemma validate_Nil_iff:
  "validate l n = [] \<longleftrightarrow> validator l \<and> 2 \<le> length n \<and> length n \<le> 100"
  using validator_nonempty [of l]
  by (auto simp: validate_def validate_telegram_link_def validate_owner_name_def)

lemma validate_update_Nil_iff:
  "validate_update l n = [] \<longleftrightarrow> validator l \<and> 2 \<le> length n \<and> length n \<le> 100"
  using validator_nonempty [of l]
  by (auto simp: validate_update_def validate_telegram_link_def validate_owner_name_def)

lemma find_oid_Some: "find (\<lambda>d. oid d = i) xs = Some d \<Longrightarrow> d \<in> set xs \<and> oid d = i"
  by (induction xs) (auto split: if_splits)

lemma set_remove_first: "set (remove_first P xs) \<subseteq> set xs"
  by (induction xs) auto

lemma distinct_map_remove_first:
  "distinct (map f xs) \<Longrightarrow> distinct (map f (remove_first P xs))"
proof (induction xs)
  case Nil
  then show ?case by simp
next
  case (Cons x xs)
  then show ?case using set_remove_first [of P xs] by auto
qed

lemma filter_remove_first:
  "filter (\<lambda>x. \<not> P x) (remove_first P xs) = filter (\<lambda>x. \<not> P x) xs"
  by (induction xs) auto

lemma length_remove_first: "length xs \<le> Suc (length (remove_first P xs))"
  by (induction xs) auto

lemma map_oid_replace_first:
  "oid y = i \<Longrightarrow> map oid (replace_first (\<lambda>x. oid x = i) y xs) = map oid xs"
  by (induction xs) auto

lemma set_replace_first: "set (replace_first P y xs) \<subseteq> insert y (set xs)"
  by (induction xs) auto

lemma distinct_links_replace_first:
  assumes "distinct (map oid xs)" "distinct (map telegram_link xs)"
    and "\<forall>x\<in>set xs. telegram_link x = telegram_link y \<longrightarrow> oid x = i"
  shows "distinct (map telegram_link (replace_first (\<lambda>x. oid x = i) y xs))"
  using assms
proof (induction xs)
  case Nil
  then show ?case by simp
next
  case (Cons x xs)
  show ?case
  proof (cases "oid x = i")
    case True
    have "telegram_link y \<notin> telegram_link ` set xs"
    proof
      assume "telegram_link y \<in> telegram_link ` set xs"
      then obtain z where z: "z \<in> set xs" "telegram_link z = telegram_link y" by auto
      with Cons.prems(3) have "oid z = i" by simp
      with True z(1) have "oid x \<in> oid ` set xs" by (metis image_eqI)
      with Cons.prems(1) show False by simp
    qed
    with Cons.prems(2) True show ?thesis by simp
  next
    case False
    have "telegram_link x \<notin> telegram_link ` set (replace_first (\<lambda>x. oid x = i) y xs)"
      using Cons.prems False set_replace_first [of "\<lambda>x. oid x = i" y xs] by auto
    with Cons False show ?thesis by simp
  qed
qed

lemma consistent_empty: "consistent empty_state"
  by (simp add: consistent_def empty_state_def)

lemma consistent_post: 
  assumes "consistent st"
  shows "consistent (snd (post e tlink owner st))"
proof -
  have fresh: "oid_counter st \<notin> oid ` set (docs st)"
    using assms by (auto simp: consistent_def list_all_iff)
  have mono: "list_all (\<lambda>d. oid d < Suc (oid_counter st)) (docs st)"
    using assms by (auto simp: consistent_def list_all_iff)
  show ?thesis
    using assms fresh mono
    by (auto simp: post_def consistent_def Let_def find_None_iff stored_well_def trim_idem
          validate_Nil_iff
        split: option.splits list.splits)
qed

lemma consistent_delete:
  assumes "consistent st"
  shows "consistent (snd (delete e p st))"
  using assms set_remove_first [of "\<lambda>x. oid x = i" "docs st" for i]
  by (auto simp: delete_def consistent_def distinct_map_remove_first list_all_iff
      split: id_param.splits option.splits)

lemma consistent_put:
  assumes "consistent st"
  shows "consistent (snd (put e p tlink owner st))"
proof -
  have upd: "consistent (st\<lparr>docs := replace_first (\<lambda>x. oid x = i) d' (docs st)\<rparr>)"
    if f: "find (\<lambda>d. oid d = i) (docs st) = Some d"
      and n: "find (\<lambda>d. telegram_link d = l \<and> oid d \<noteq> i) (docs st) = None"
      and v: "validate_update l m = []" and l: "trim l = l" and m: "trim m = m"
      and d': "d' = d\<lparr>telegram_link := l, owner_name := m, updatedAt := t\<rparr>"
    for i d l m d' t
  proof -
    from f have d: "d \<in> set (docs st)" "oid d = i" using find_oid_Some by blast+
    have i: "oid d' = i" using d d' by simp
    have w: "stored_well d'"
      using v l m d' by (simp add: stored_well_def validate_update_Nil_iff)
    have o: "\<forall>x\<in>set (docs st). telegram_link x = telegram_link d' \<longrightarrow> oid x = i"
      using n d' by (auto simp: find_None_iff)
    have "distinct (map telegram_link (replace_first (\<lambda>x. oid x = i) d' (docs st)))"
      using assms o by (intro distinct_links_replace_first) (simp_all add: consistent_def)
    moreover have "distinct (map oid (replace_first (\<lambda>x. oid x = i) d' (docs st)))"
      using assms i by (simp add: map_oid_replace_first consistent_def)
    moreover have "oid d' < oid_counter st"
      using assms d i by (auto simp: consistent_def list_all_iff)
    ultimately show ?thesis
      using assms w set_replace_first [of "\<lambda>x. oid x = i" d' "docs st"]
      by (auto simp: consistent_def list_all_iff)
  qed
  show ?thesis
    using assms upd
    by (auto simp: put_def Let_def trim_idem 
        split: option.splits id_param.splits list.splits)
qed

lemma consistent_serve: "consistent st \<Longrightarrow> consistent (serve st r)"
  by (cases r) (simp_all add: consistent_post consistent_put consistent_delete)

lemma consistent_foldl: "consistent st \<Longrightarrow> consistent (foldl serve st rs)"
  by (induction rs arbitrary: st) (simp_all add: consistent_serve)

lemma consistent_run: "consistent (run rs)"
  by (simp add: run_def consistent_foldl consistent_empty)

section \<open>Evaluating the examples\<close>

lemma js_eq_iff: "js a = js b \<longleftrightarrow> a = b"
  using inj_of_char [where 'a = nat] by (simp add: js_def inj_map_eq_map inj_eq)

lemma js_Nil_iff: "js s = [] \<longleftrightarrow> s = []"
  by (simp add: js_def)

lemma length_js: "length (js s) = length s"
  by (simp add: js_def)

lemma trim_js:
  "s \<noteq> [] \<Longrightarrow> \<not> trimmable (of_char (hd s)) \<Longrightarrow> \<not> trimmable (of_char (last s)) \<Longrightarrow>
     trim (js s) = js s"
  by (rule trim_keeps) (simp_all add: js_def hd_map last_map)

lemmas space_defs = trimmable_def white_space_def line_terminator_def

lemmas regex_defs =
  validator_def telegram_link_regex_def seq_def lit_def opt_def alt_def js_def
  line_terminator_def

section \<open>The shape of the responses\<close>

lemma enveloped_failure: "400 \<le> c \<Longrightarrow> enveloped (failure c m)"
  by (simp add: enveloped_def envelope_def failure_def failure_shape_def)

lemma is_string_array_msgs: "list_all is_string (map (\<lambda>m. JStr (js m)) ms)"
  by (induction ms) auto

lemma enveloped_validation_failure: "enveloped (validation_failure ms)"
  by (simp add: enveloped_def envelope_def validation_failure_def failure_shape_def
      is_string_array_msgs)

lemma enveloped_saved: "c < 400 \<Longrightarrow> enveloped (saved c m d)"
  by (simp add: enveloped_def envelope_def saved_def success_shape_def)

lemma enveloped_list_ok: "enveloped (list_ok ds p l n)"
  by (simp add: enveloped_def envelope_def list_ok_def success_shape_def)

lemma enveloped_deleted: "enveloped deleted"
  by (simp add: enveloped_def envelope_def deleted_def success_shape_def)

lemma enveloped_named:
  "enveloped missing_fields" "enveloped duplicate_link" "enveloped not_found"
  by (simp_all add: missing_fields_def duplicate_link_def not_found_def enveloped_failure)

lemma enveloped_get_list: "enveloped (get_list rx e q st)"
  by (simp add: get_list_def listing_def Let_def enveloped_failure enveloped_list_ok
      split: option.splits)

lemma enveloped_get_owners: "enveloped (get_owners e st)"
  by (simp add: get_owners_def enveloped_failure)
     (simp add: enveloped_def envelope_def success_shape_def)

lemma enveloped_get_by_id: "enveloped (get_by_id e p st)"
  by (auto simp: get_by_id_def enveloped_failure enveloped_named
      split: id_param.splits option.splits)
     (simp add: enveloped_def envelope_def success_shape_def)

lemma enveloped_post: "enveloped (fst (post e tlink owner st))"
  by (auto simp: post_def Let_def enveloped_failure enveloped_validation_failure
       enveloped_saved enveloped_named split: option.splits list.splits)

lemma enveloped_put: "enveloped (fst (put e p tlink owner st))"
  by (auto simp: put_def Let_def enveloped_failure enveloped_validation_failure
       enveloped_saved enveloped_named split: option.splits list.splits id_param.splits)

lemma enveloped_delete: "enveloped (fst (delete e p st))"
  by (auto simp: delete_def enveloped_failure enveloped_deleted enveloped_named
      split: id_param.splits option.splits)

text \<open>The envelope is a real constraint: a failure needs its \<open>error\<close>, a success carries
  no other key, and the flag goes with the status.\<close>

lemma envelope_rejects:
  "\<not> envelope (JObj [(''success'', JBool False)])"
  "\<not> envelope (JObj [(''success'', JBool True), (''error'', JStr (js ''x''))])"
  "\<not> envelope (JObj [(''data'', JNull)])"
  "\<not> enveloped \<lparr>status = 404, body = JObj [(''success'', JBool True)]\<rparr>"
  "\<not> enveloped \<lparr>status = 200, body = JObj [(''success'', JBool False),
      (''error'', JStr (js ''x''))]\<rparr>"
  by (simp_all add: enveloped_def envelope_def failure_shape_def success_shape_def)

section \<open>The outcomes of \<open>POST /\<close> and \<open>PUT /:id\<close>\<close>

lemma stored_link_found:
  "d \<in> set xs \<Longrightarrow> find (\<lambda>x. telegram_link x = telegram_link d) xs \<noteq> None"
  by (simp add: find_None_iff) blast

lemma required_fields_Some:
  "required_fields (Some l) (Some n) = (if l = [] \<or> n = [] then None else Some (l, n))"
  by (simp add: required_fields_def falsy_def)

lemma not_falsy: "\<not> falsy v \<longleftrightarrow> (\<exists>s. v = Some s \<and> s \<noteq> [])"
  by (cases v) (simp_all add: falsy_def)

lemma post_fresh:
  assumes "fault e = None" and "find (\<lambda>d. telegram_link d = trim l) (docs st) = None"
    and "l \<noteq> []" and "n \<noteq> []"
  shows "post e (Some l) (Some n) st =
     (if validate (trim l) (trim n) = []
      then (saved 201 ''Telegram link created successfully''
              \<lparr>oid = oid_counter st, telegram_link = trim l, owner_name = trim n,
                createdAt = now e, updatedAt = now e\<rparr>,
            st\<lparr>oid_counter := Suc (oid_counter st),
               docs := docs st @
                 [\<lparr>oid = oid_counter st, telegram_link = trim l, owner_name = trim n,
                   createdAt = now e, updatedAt = now e\<rparr>]\<rparr>)
      else (validation_failure (validate (trim l) (trim n)),
            st\<lparr>oid_counter := Suc (oid_counter st)\<rparr>))"
  using assms by (simp add: post_def required_fields_Some Let_def split: list.splits)

lemma put_present:
  assumes "fault e = None" and "find (\<lambda>d. oid d = i) (docs st) = Some d"
    and "find (\<lambda>d. telegram_link d = trim l \<and> oid d \<noteq> i) (docs st) = None"
    and "l \<noteq> []" and "n \<noteq> []"
  shows "put e (Oid i) (Some l) (Some n) st =
     (if validate_update (trim l) (trim n) = []
      then (saved 200 ''Telegram link updated successfully''
              (d\<lparr>telegram_link := trim l, owner_name := trim n, updatedAt := now e\<rparr>),
            st\<lparr>docs := replace_first (\<lambda>x. oid x = i)
                 (d\<lparr>telegram_link := trim l, owner_name := trim n, updatedAt := now e\<rparr>)
                 (docs st)\<rparr>)
      else (validation_failure (validate_update (trim l) (trim n)), st))"
  using assms by (simp add: put_def required_fields_Some Let_def split: list.splits)

text \<open>What replacing the first document with an identifier does, in terms of the list.\<close>

lemma find_replace_first:
  "find (\<lambda>x. oid x = i) xs \<noteq> None \<Longrightarrow> oid y = i \<Longrightarrow>
     find (\<lambda>x. oid x = i) (replace_first (\<lambda>x. oid x = i) y xs) = Some y"
  by (induction xs) auto

lemma filter_replace_first:
  "oid y = i \<Longrightarrow>
     filter (\<lambda>x. oid x \<noteq> i) (replace_first (\<lambda>x. oid x = i) y xs) =
     filter (\<lambda>x. oid x \<noteq> i) xs"
  by (induction xs) auto

lemma length_replace_first: "length (replace_first P y xs) = length xs"
  by (induction xs) auto

lemma status_simps:
  "status (saved c m d) = c" "status (validation_failure ms) = 400" "status (failure c m) = c"
  "status missing_fields = 400" "status duplicate_link = 409" "status not_found = 404"
  by (simp_all add: saved_def validation_failure_def failure_def missing_fields_def
      duplicate_link_def not_found_def)

lemma trim_nonempty: "trim l \<noteq> [] \<Longrightarrow> l \<noteq> []"
  using trim_Nil by blast

lemma owner_nonempty: "2 \<le> length (trim n) \<Longrightarrow> n \<noteq> []"
  using trim_Nil by fastforce

section \<open>Searching and paging\<close>

text \<open>\<open>contains_ci\<close> is containment of a substring, up to the folding.\<close>

lemma contains_ci_iff:
  "contains_ci f p s \<longleftrightarrow> (\<exists>u w v. s = u @ w @ v \<and> map f w = map f p)"
proof (induction s)
  case Nil
  then show ?case by auto
next
  case (Cons x xs)
  have "map f (take (length p) (x # xs)) = map f p \<longleftrightarrow> (\<exists>w v. x # xs = w @ v \<and> map f w = map f p)"
    (is "?l \<longleftrightarrow> ?r")
  proof
    assume ?l
    then have "x # xs = take (length p) (x # xs) @ drop (length p) (x # xs) \<and>
      map f (take (length p) (x # xs)) = map f p" by simp
    then show ?r by blast
  next
    assume ?r
    then obtain w v where wv: "x # xs = w @ v" "map f w = map f p" by blast
    then have "length w = length p" using map_eq_imp_length_eq by blast
    with wv show ?l by (metis append_eq_conv_conj)
  qed
  moreover have "(\<exists>u w v. x # xs = u @ w @ v \<and> map f w = map f p) \<longleftrightarrow>
     (\<exists>w v. x # xs = w @ v \<and> map f w = map f p) \<or> (\<exists>u w v. xs = u @ w @ v \<and> map f w = map f p)"
    (is "?a \<longleftrightarrow> ?b \<or> ?c")
  proof
    assume ?a
    then obtain u w v where e: "x # xs = u @ w @ v" "map f w = map f p" by blast
    show "?b \<or> ?c"
    proof (cases u)
      case Nil
      with e show ?thesis by auto
    next
      case (Cons y ys)
      with e have "xs = ys @ w @ v" by simp
      with e(2) show ?thesis by blast
    qed
  next
    assume "?b \<or> ?c"
    then show ?a
    proof
      assume ?b
      then obtain w v where "x # xs = [] @ w @ v" "map f w = map f p" by auto
      then show ?a by blast
    next
      assume ?c
      then obtain u w v where "x # xs = (x # u) @ w @ v" "map f w = map f p" by auto
      then show ?a by blast
    qed
  qed
  ultimately show ?case using Cons.IH by simp
qed





text \<open>On ASCII strings every such folding compares as the ASCII folding does.\<close>

lemma map_fold_ascii:
  "\<forall>c. c < 128 \<longrightarrow> f c = ascii_fold c \<Longrightarrow> list_all (\<lambda>c. c < 128) s \<Longrightarrow>
     map f s = map ascii_fold s"
  by (induction s) auto

lemma contains_ci_ascii:
  assumes "\<forall>c. c < 128 \<longrightarrow> f c = ascii_fold c"
    and "list_all (\<lambda>c. c < 128) p" and "list_all (\<lambda>c. c < 128) s"
  shows "contains_ci f p s = contains_ci ascii_fold p s"
  using assms(3)
proof (induction s)
  case Nil
  then show ?case by simp
next
  case (Cons x xs)
  have "list_all (\<lambda>c. c < 128) (take (length p) (x # xs))"
    using Cons.prems set_take_subset [of "length p" "x # xs"]
    unfolding list_all_iff by blast
  then have e1: "map f (take (length p) (x # xs)) = map ascii_fold (take (length p) (x # xs))"
    using assms(1) map_fold_ascii by blast
  have e2: "map f p = map ascii_fold p"
    using assms(1,2) map_fold_ascii by blast
  have ih: "contains_ci f p xs = contains_ci ascii_fold p xs"
    using Cons by simp
  show ?case by (simp only: contains_ci.simps e1 e2 ih)
qed

lemma mset_find_sorted: "mset (find_sorted P ds) = mset (filter P ds)"
  by (simp add: find_sorted_def)


lemma sorted_find_sorted:
  "sorted_wrt (\<lambda>a b. createdAt b \<le> createdAt a) (find_sorted P ds)"
proof -
  have "sorted (map (\<lambda>d. - createdAt d) (find_sorted P ds))"
    unfolding find_sorted_def by (rule sorted_sort_key)
  then show ?thesis by (simp add: sorted_map)
qed

lemma total_pages_ceiling:
  "s \<noteq> 0 \<Longrightarrow> total_pages n s = JNum \<lceil>real_of_int n / real_of_int s\<rceil>"
  by (simp add: total_pages_def ceiling_divide_eq_div)

lemma skip_limit_page:
  "1 \<le> p \<Longrightarrow> 1 \<le> s \<Longrightarrow> skip_limit ((p - 1) * s) s xs = take (nat s) (drop (nat ((p - 1) * s)) xs)"
  by (simp add: skip_limit_def)

section \<open>The claims\<close>

subsection \<open>C1: updating an identifier that is absent\<close>

lemma find_absent:
  "find (\<lambda>d. oid d = i) xs = None \<Longrightarrow>
     find (\<lambda>d. telegram_link d = l \<and> oid d \<noteq> i) xs = find (\<lambda>d. telegram_link d = l) xs"
  by (induction xs) (auto split: if_splits)

text \<open>
  C1 says that \<open>PUT /:id\<close> with both fields in the body answers 404 for every identifier
  that is absent from the collection, whatever the values of the fields. The route looks
  for another document with the link before it looks for the identifier, and it validates
  before it asks the database: the link of \<open>alice\<close> sent to the absent identifier 7 is
  answered 409.
\<close>

theorem update_absent_id_counterexample:
  "find (\<lambda>d. oid d = 7) (docs two_docs) = None \<and>
   put quiet (Oid 7) (Some (js ''https://t.me/alice'')) (Some (js ''Carol'')) two_docs =
     (duplicate_link, two_docs) \<and>
   status duplicate_link = 409 \<and> status not_found = 404"
  by (simp add: put_def required_fields_def falsy_def quiet_def two_docs_def alice_def marc_def
      trim_js space_defs duplicate_link_def not_found_def js_Nil_iff failure_def)

text \<open>
  C1 as amended: for an identifier that is well formed and absent from the collection, and a
  body with both fields not empty, \<open>PUT /:id\<close> leaves the state as it is and answers 409
  (link already exists) when a document holds the trimmed link, else 400 when the trimmed
  fields fail the validation, else 404 (not found), the store answering its calls.
\<close>

theorem update_absent_id:
  assumes "find (\<lambda>d. oid d = i) (docs st) = None" and "l \<noteq> []" and "n \<noteq> []"
    and "fault e = None"
  shows "snd (put e (Oid i) (Some l) (Some n) st) = st \<and>
     (if find (\<lambda>d. telegram_link d = trim l) (docs st) \<noteq> None
      then fst (put e (Oid i) (Some l) (Some n) st) = duplicate_link \<and> status duplicate_link = 409
      else if \<not> (validator (trim l) \<and> 2 \<le> length (trim n) \<and> length (trim n) \<le> 100)
      then status (fst (put e (Oid i) (Some l) (Some n) st)) = 400
      else fst (put e (Oid i) (Some l) (Some n) st) = not_found \<and> status not_found = 404)"
  using assms
  by (auto simp: put_def required_fields_def falsy_def find_absent status_simps
        validate_update_Nil_iff [symmetric]
      split: option.splits list.splits)

theorem update_absent_id_witness:
  "find (\<lambda>d. oid d = 7) (docs two_docs) = None \<and> js ''https://t.me/nobody'' \<noteq> [] \<and>
   js ''Carol'' \<noteq> [] \<and> fault quiet = None \<and>
   put quiet (Oid 7) (Some (js ''https://t.me/nobody'')) (Some (js ''Carol'')) two_docs =
     (not_found, two_docs) \<and>
   snd (put quiet (Oid 7) (Some (js ''ftp://t.me/nobody'')) (Some (js ''C'')) two_docs) =
     two_docs \<and>
   status (fst (put quiet (Oid 7) (Some (js ''ftp://t.me/nobody'')) (Some (js ''C'')) two_docs)) =
     400"
proof -
  have a: "find (\<lambda>d. oid d = 7) (docs two_docs) = None"
    by (simp add: two_docs_def alice_def marc_def)
  have b: "js ''https://t.me/nobody'' \<noteq> []" "js ''Carol'' \<noteq> []" "fault quiet = None"
    by (simp_all add: js_Nil_iff quiet_def)
  have b': "js ''ftp://t.me/nobody'' \<noteq> []" "js ''C'' \<noteq> []" "fault quiet = None"
    by (simp_all add: js_Nil_iff quiet_def)
  have t: "trim (js ''https://t.me/nobody'') = js ''https://t.me/nobody''"
    "trim (js ''Carol'') = js ''Carol''"
    "trim (js ''ftp://t.me/nobody'') = js ''ftp://t.me/nobody''" "trim (js ''C'') = js ''C''"
    by (simp_all add: trim_js space_defs)
  have c: "find (\<lambda>d. telegram_link d = trim (js ''https://t.me/nobody'')) (docs two_docs) = None"
    "find (\<lambda>d. telegram_link d = trim (js ''ftp://t.me/nobody'')) (docs two_docs) = None"
    by (simp_all add: t two_docs_def alice_def marc_def js_eq_iff)
  have v: "validator (trim (js ''https://t.me/nobody''))"
    "\<not> validator (trim (js ''ftp://t.me/nobody''))"
    unfolding t by (simp_all add: regex_defs)
  have n: "length (trim (js ''Carol'')) = 5" "length (trim (js ''C'')) = 1"
    by (simp_all add: t length_js)
  from update_absent_id [OF a b] update_absent_id [OF a b'] a b c v n
  show ?thesis by (simp add: prod_eq_iff)
qed

text \<open>An identifier that is not well formed is answered 500: the cast of the first query
  throws.\<close>

lemma update_malformed_id:
  "l \<noteq> [] \<Longrightarrow> n \<noteq> [] \<Longrightarrow>
     put e Malformed (Some l) (Some n) st = (failure 500 ''Failed to update telegram link'', st)"
  by (simp add: put_def required_fields_Some)

text \<open>When both fields fail, the details of an update name \<open>owner_name\<close> first.\<close>

lemma update_details_order:
  "put quiet (Oid 7) (Some (js ''ftp://t.me/abc'')) (Some (js ''a'')) two_docs =
     (validation_failure
        [''Owner name must be at least 2 characters long'',
         ''Please provide a valid Telegram link''], two_docs)"
proof -
  have t: "trim (js ''ftp://t.me/abc'') = js ''ftp://t.me/abc''" "trim (js ''a'') = js ''a''"
    by (simp_all add: trim_js space_defs)
  have "\<not> validator (js ''ftp://t.me/abc'')" by (simp add: regex_defs)
  then have "validate_update (js ''ftp://t.me/abc'') (js ''a'') =
      [''Owner name must be at least 2 characters long'',
       ''Please provide a valid Telegram link'']"
    by (simp add: validate_update_def validate_telegram_link_def validate_owner_name_def
        length_js js_Nil_iff)
  then show ?thesis
    by (simp add: put_def required_fields_Some js_Nil_iff quiet_def t two_docs_def alice_def
        marc_def js_eq_iff)
qed

subsection \<open>C2: the links stored are unique\<close>

text \<open>
  C2: after any sequence of create, update and delete requests, served one after the other
  from the empty collection, no two documents have the same \<open>telegram_link\<close>, the links
  compared code unit by code unit.
\<close>

theorem stored_links_unique: "distinct (map telegram_link (docs (run rs)))"
  using consistent_run [of rs] by (simp add: consistent_def)

subsection \<open>C3: creating a link that is stored\<close>

text \<open>
  C3 says that \<open>POST /\<close> with a link that is stored answers 409. The route first
  requires both fields: with the link of a stored document and no \<open>owner_name\<close> the
  answer is the 400 of the missing field, before the link is looked up.
\<close>

theorem duplicate_create_counterexample:
  "\<lparr>oid = 0, telegram_link = js ''https://t.me/alice'', owner_name = js ''Alice'',
     createdAt = 5, updatedAt = 5\<rparr>
     \<in> set (docs (run [Create quiet (Some (js ''https://t.me/alice'')) (Some (js ''Alice''))])) \<and>
   post quiet (Some (js ''https://t.me/alice'')) None
     (run [Create quiet (Some (js ''https://t.me/alice'')) (Some (js ''Alice''))]) =
     (missing_fields, run [Create quiet (Some (js ''https://t.me/alice'')) (Some (js ''Alice''))]) \<and>
   status missing_fields = 400 \<and> status duplicate_link = 409"
proof -
  have v: "validator (js ''https://t.me/alice'')" by (simp add: regex_defs)
  have t: "trim (js ''https://t.me/alice'') = js ''https://t.me/alice''"
    "trim (js ''Alice'') = js ''Alice''"
    by (simp_all add: trim_js space_defs)
  have "validate (js ''https://t.me/alice'') (js ''Alice'') = []"
    using v by (simp add: validate_Nil_iff length_js)
  then have r: "run [Create quiet (Some (js ''https://t.me/alice'')) (Some (js ''Alice''))] =
      \<lparr>docs = [\<lparr>oid = 0, telegram_link = js ''https://t.me/alice'', owner_name = js ''Alice'',
                 createdAt = 5, updatedAt = 5\<rparr>], oid_counter = 1\<rparr>"
    by (simp add: run_def post_def required_fields_Some js_Nil_iff quiet_def
        empty_state_def t Let_def)
  show ?thesis
    by (simp add: r post_def required_fields_def falsy_def status_simps)
qed

text \<open>
  C3 as amended: in every state the service reaches, \<open>POST /\<close> with the link of a stored
  document inserts nothing and leaves the state as it is; it answers 409 when the request
  carries an \<open>owner_name\<close> that is not empty (of any value), the store answering the
  lookup of the link, and the 400 of the missing field when it carries none.
\<close>

theorem duplicate_create:
  assumes "d \<in> set (docs (run rs))" and "fault e \<noteq> Some 0"
  shows "post e (Some (telegram_link d)) owner (run rs) =
           (if falsy owner then missing_fields else duplicate_link, run rs) \<and>
         status duplicate_link = 409 \<and> status missing_fields = 400"
proof (cases "falsy owner")
  case True
  then show ?thesis by (simp add: post_def required_fields_def status_simps)
next
  case False
  have "stored_well d"
    using consistent_run [of rs] assms(1) by (simp add: consistent_def list_all_iff)
  then have t: "trim (telegram_link d) = telegram_link d" and "validator (telegram_link d)"
    by (simp_all add: stored_well_def)
  then have "telegram_link d \<noteq> []" using validator_nonempty by blast
  moreover obtain n where "owner = Some n" "n \<noteq> []"
    using False by (auto simp: not_falsy)
  ultimately have r: "required_fields (Some (telegram_link d)) owner = Some (telegram_link d, n)"
    by (simp add: required_fields_Some)
  show ?thesis
    using assms(2) r stored_link_found [OF assms(1)] t False
    by (auto simp: post_def status_simps split: option.splits)
qed

theorem duplicate_create_witness:
  "\<lparr>oid = 0, telegram_link = js ''https://t.me/alice'', owner_name = js ''Alice'',
     createdAt = 5, updatedAt = 5\<rparr>
     \<in> set (docs (run [Create quiet (Some (js ''https://t.me/alice'')) (Some (js ''Alice''))])) \<and>
   \<not> falsy (Some (js ''Bob'')) \<and> fault quiet \<noteq> Some 0 \<and>
   post quiet (Some (js ''https://t.me/alice'')) (Some (js ''Bob''))
     (run [Create quiet (Some (js ''https://t.me/alice'')) (Some (js ''Alice''))]) =
     (duplicate_link, run [Create quiet (Some (js ''https://t.me/alice'')) (Some (js ''Alice''))])"
proof -
  have v: "validator (js ''https://t.me/alice'')" by (simp add: regex_defs)
  have t: "trim (js ''https://t.me/alice'') = js ''https://t.me/alice''"
    "trim (js ''Alice'') = js ''Alice''"
    by (simp_all add: trim_js space_defs)
  have r: "run [Create quiet (Some (js ''https://t.me/alice'')) (Some (js ''Alice''))] =
      \<lparr>docs = [\<lparr>oid = 0, telegram_link = js ''https://t.me/alice'', owner_name = js ''Alice'',
                 createdAt = 5, updatedAt = 5\<rparr>], oid_counter = 1\<rparr>"
  proof -
    have "validate (js ''https://t.me/alice'') (js ''Alice'') = []"
      using v by (simp add: validate_Nil_iff length_js)
    then show ?thesis
      by (simp add: run_def post_def required_fields_Some js_Nil_iff quiet_def
          empty_state_def t Let_def)
  qed
  have a: "\<lparr>oid = 0, telegram_link = js ''https://t.me/alice'', owner_name = js ''Alice'',
     createdAt = 5, updatedAt = 5\<rparr>
     \<in> set (docs (run [Create quiet (Some (js ''https://t.me/alice'')) (Some (js ''Alice''))]))"
    by (simp add: r)
  have b: "\<not> falsy (Some (js ''Bob''))" "fault quiet \<noteq> Some 0"
    by (simp_all add: falsy_def js_Nil_iff quiet_def)
  from duplicate_create [OF a b(2), of "Some (js ''Bob'')"] a b show ?thesis by simp
qed

subsection \<open>C4: the search filter\<close>




subsection \<open>C5: paging\<close>

text \<open>
  C5: for a page number \<open>p \<ge> 1\<close> and a page size \<open>s \<ge> 1\<close> (given, or by default), when
  the store answers the query, \<open>GET /\<close> returns the documents that follow the first \<open>(p - 1) * s\<close> of the
  matching ones in the order of \<open>createdAt\<close> descending, at most \<open>s\<close> of them, with
  \<open>currentPage = p\<close>, \<open>totalPages\<close> the ceiling of \<open>total / s\<close>, \<open>totalItems = total\<close>
  (all matching documents) and \<open>itemsPerPage = s\<close>. With 12 documents, page 2 and limit 5
  these are 5 documents, 3 pages and 12 items.
\<close>

theorem pagination:
  assumes "page_num q = p" and "limit_num q = s" and "1 \<le> p" and "1 \<le> s"
    and "fault e = None" and "selects rx (query_of q) = Some P"
  shows
    "get_list rx e q st =
       \<lparr>status = 200,
        body = JObj
          [(''success'', JBool True),
           (''data'', JArr (map doc_json
              (take (nat s) (drop (nat ((p - 1) * s)) (find_sorted P (docs st)))))),
           (''pagination'', JObj
              [(''currentPage'', JNum p),
               (''totalPages'',
                  JNum \<lceil>real (length (filter P (docs st))) / real_of_int s\<rceil>),
               (''totalItems'', JNum (int (length (filter P (docs st))))),
               (''itemsPerPage'', JNum s)])]\<rparr> \<and>
     mset (find_sorted P (docs st)) = mset (filter P (docs st)) \<and>
     sorted_wrt (\<lambda>a b. createdAt b \<le> createdAt a)
       (take (nat s) (drop (nat ((p - 1) * s)) (find_sorted P (docs st)))) \<and>
     length (take (nat s) (drop (nat ((p - 1) * s)) (find_sorted P (docs st)))) =
       min (nat s) (length (filter P (docs st)) - nat ((p - 1) * s))"
proof -
  have k: "0 \<le> (p - 1) * s" using assms(3,4) by simp
  have c: "total_pages (int (length (filter P (docs st)))) s =
      JNum \<lceil>real (length (filter P (docs st))) / real_of_int s\<rceil>"
    using assms(4) total_pages_ceiling [of s "int (length (filter P (docs st)))"] by simp
  have "\<not> (page_num q - 1) * limit_num q < 0"
    using assms(1,2) k by (simp add: not_less)
  then have "get_list rx e q st = listing q P st"
    using assms(5,6) unfolding get_list_def by simp
  then have 1: "get_list rx e q st =
      list_ok (take (nat s) (drop (nat ((p - 1) * s)) (find_sorted P (docs st)))) p s
        (int (length (filter P (docs st))))"
    using assms(1-4) by (simp add: listing_def skip_limit_page)
  have l: "length (find_sorted P (docs st)) = length (filter P (docs st))"
    using mset_find_sorted [of P "docs st"] by (metis size_mset)
  have 3: "sorted_wrt (\<lambda>a b. createdAt b \<le> createdAt a)
       (take (nat s) (drop (nat ((p - 1) * s)) (find_sorted P (docs st))))"
    using sorted_find_sorted [of P "docs st"] by (simp add: sorted_wrt_take sorted_wrt_drop)
  show ?thesis
    using 1 c 3 l by (simp add: list_ok_def mset_find_sorted)
qed

lemma createdAt_channel: "createdAt (channel k) = int k"
  by (simp add: channel_def)

lemma sorted_twelve:
  "find_sorted (\<lambda>d. True) (docs twelve) =
     map channel [11, 10, 9, 8, 7, 6, 5, 4, 3, 2, 1, 0]"
  by (simp add: find_sorted_def twelve_def createdAt_channel)

theorem pagination_witness:
  "page_num \<lparr>page = Some 2, limit = Some 5, search = None\<rparr> = 2 \<and>
   limit_num \<lparr>page = Some 2, limit = Some 5, search = None\<rparr> = 5 \<and>
   (1::int) \<le> 2 \<and> (1::int) \<le> 5 \<and> fault quiet = None \<and>
   selects small_engine (query_of \<lparr>page = Some 2, limit = Some 5, search = None\<rparr>) =
     Some (\<lambda>d. True) \<and>
   length (docs twelve) = 12 \<and>
   get_list small_engine quiet \<lparr>page = Some 2, limit = Some 5, search = None\<rparr> twelve =
     \<lparr>status = 200,
      body = JObj
        [(''success'', JBool True),
         (''data'', JArr (map doc_json (map channel [6, 5, 4, 3, 2]))),
         (''pagination'', JObj
            [(''currentPage'', JNum 2), (''totalPages'', JNum 3), (''totalItems'', JNum 12),
             (''itemsPerPage'', JNum 5)])]\<rparr>"
proof -
  have a: "page_num \<lparr>page = Some 2, limit = Some 5, search = None\<rparr> = 2"
    "limit_num \<lparr>page = Some 2, limit = Some 5, search = None\<rparr> = 5"
    "(1::int) \<le> 2" "(1::int) \<le> 5" "fault quiet = None"
    "selects small_engine (query_of \<lparr>page = Some 2, limit = Some 5, search = None\<rparr>) =
       Some (\<lambda>d. True)"
    by (simp_all add: quiet_def selects_def query_of_def page_num_def limit_num_def)
  have n: "length (docs twelve) = 12" by (simp add: twelve_def)
  from pagination [OF a, of twelve] a n show ?thesis
    by (simp add: sorted_twelve)
qed

subsection \<open>C6: the rule for \<open>telegram_link\<close>\<close>

text \<open>
  C6 says that a link is accepted if and only if it is not empty and matches the
  expression. The schema trims the link before it validates and stores it: the link
  \<^verbatim>\<open>" https://t.me/abc"\<close>, with a space in front, does not match and is accepted.
\<close>

lemma trim_spaced: "trim (js '' https://t.me/abc'') = js ''https://t.me/abc''"
  by (simp add: trim_def js_def space_defs)

theorem link_rule_counterexample:
  "js '' https://t.me/abc'' \<noteq> [] \<and> \<not> validator (js '' https://t.me/abc'') \<and>
   status (fst (post quiet (Some (js '' https://t.me/abc'')) (Some (js ''Alice'')) empty_state)) = 201"
proof -
  have "validator (js ''https://t.me/abc'')" by (simp add: regex_defs)
  then have "validate (js ''https://t.me/abc'') (js ''Alice'') = []"
    by (simp add: validate_Nil_iff length_js)
  moreover have "\<not> validator (js '' https://t.me/abc'')" by (simp add: regex_defs)
  ultimately show ?thesis
    by (simp add: post_fresh quiet_def empty_state_def js_Nil_iff trim_spaced trim_js space_defs
        status_simps)
qed

text \<open>And the link \<^verbatim>\<open>"https://t.me/ "\<close> matches and is refused, its path being
  empty once trimmed.\<close>

lemma trailing_space_rejected:
  "validator (js ''https://t.me/ '') \<and>
   fst (post quiet (Some (js ''https://t.me/ '')) (Some (js ''Alice'')) empty_state) =
     validation_failure [''Please provide a valid Telegram link'']"
proof -
  have t: "trim (js ''https://t.me/ '') = js ''https://t.me/''"
    by (simp add: trim_def js_def space_defs)
  have "\<not> validator (js ''https://t.me/'')" by (simp add: regex_defs)
  then have "validate (js ''https://t.me/'') (js ''Alice'') = [''Please provide a valid Telegram link'']"
    by (simp add: validate_def validate_telegram_link_def validate_owner_name_def length_js)
  moreover have "validator (js ''https://t.me/ '')" by (simp add: regex_defs)
  ultimately show ?thesis
    by (simp add: post_fresh quiet_def empty_state_def js_Nil_iff t trim_js space_defs)
qed

text \<open>
  C6 as amended: a create or an update whose other conditions are met (an owner name of
  2 to 100 code units once trimmed, no other document with the trimmed link, for an
  update a document with the identifier, the store answering) is accepted, with 201 or
  200, if and only if the trimmed link matches the expression, and is answered 400
  otherwise. An accepted create appends a document with the trimmed link and owner name;
  an accepted update leaves the document of the identifier with the trimmed link and
  owner name and the time of the update, and every other document as it was; a refused
  one changes no document.
\<close>

theorem link_rule:
  assumes "fault e = None" and "2 \<le> length (trim n)" and "length (trim n) \<le> 100"
  shows
    "(find (\<lambda>d. telegram_link d = trim l) (docs st) = None \<longrightarrow>
        status (fst (post e (Some l) (Some n) st)) = (if validator (trim l) then 201 else 400) \<and>
        docs (snd (post e (Some l) (Some n) st)) =
          (if validator (trim l)
           then docs st @ [\<lparr>oid = oid_counter st, telegram_link = trim l, owner_name = trim n,
                            createdAt = now e, updatedAt = now e\<rparr>]
           else docs st)) \<and>
     (find (\<lambda>d. telegram_link d = trim l \<and> oid d \<noteq> i) (docs st) = None \<and>
      find (\<lambda>d. oid d = i) (docs st) = Some d \<longrightarrow>
        status (fst (put e (Oid i) (Some l) (Some n) st)) = (if validator (trim l) then 200 else 400) \<and>
        (if validator (trim l)
         then find (\<lambda>x. oid x = i) (docs (snd (put e (Oid i) (Some l) (Some n) st))) =
                Some (d\<lparr>telegram_link := trim l, owner_name := trim n, updatedAt := now e\<rparr>) \<and>
              filter (\<lambda>x. oid x \<noteq> i) (docs (snd (put e (Oid i) (Some l) (Some n) st))) =
                filter (\<lambda>x. oid x \<noteq> i) (docs st) \<and>
              length (docs (snd (put e (Oid i) (Some l) (Some n) st))) = length (docs st)
         else docs (snd (put e (Oid i) (Some l) (Some n) st)) = docs st))"
proof (cases "l = []")
  case True
  then have "\<not> validator (trim l)" using validator_nonempty trim_Nil by blast
  with True show ?thesis
    by (simp add: post_def put_def required_fields_Some status_simps)
next
  case False
  have n: "n \<noteq> []" using assms(2) by (rule owner_nonempty)
  have v: "validate (trim l) (trim n) = [] \<longleftrightarrow> validator (trim l)"
    using assms by (simp add: validate_Nil_iff)
  have v': "validate_update (trim l) (trim n) = [] \<longleftrightarrow> validator (trim l)"
    using assms by (simp add: validate_update_Nil_iff)
  have p: "status (fst (post e (Some l) (Some n) st)) = (if validator (trim l) then 201 else 400) \<and>
        docs (snd (post e (Some l) (Some n) st)) =
          (if validator (trim l)
           then docs st @ [\<lparr>oid = oid_counter st, telegram_link = trim l, owner_name = trim n,
                            createdAt = now e, updatedAt = now e\<rparr>]
           else docs st)"
    if "find (\<lambda>d. telegram_link d = trim l) (docs st) = None"
    using that assms(1) False n v by (simp add: post_fresh status_simps)
  have u: "status (fst (put e (Oid i) (Some l) (Some n) st)) = (if validator (trim l) then 200 else 400) \<and>
        (if validator (trim l)
         then find (\<lambda>x. oid x = i) (docs (snd (put e (Oid i) (Some l) (Some n) st))) =
                Some (d\<lparr>telegram_link := trim l, owner_name := trim n, updatedAt := now e\<rparr>) \<and>
              filter (\<lambda>x. oid x \<noteq> i) (docs (snd (put e (Oid i) (Some l) (Some n) st))) =
                filter (\<lambda>x. oid x \<noteq> i) (docs st) \<and>
              length (docs (snd (put e (Oid i) (Some l) (Some n) st))) = length (docs st)
         else docs (snd (put e (Oid i) (Some l) (Some n) st)) = docs st)"
    if a: "find (\<lambda>d. telegram_link d = trim l \<and> oid d \<noteq> i) (docs st) = None"
      and b: "find (\<lambda>d. oid d = i) (docs st) = Some d"
  proof -
    have o: "oid (d\<lparr>telegram_link := trim l, owner_name := trim n, updatedAt := now e\<rparr>) = i"
      using find_oid_Some [OF b] by simp
    have ne: "find (\<lambda>d. oid d = i) (docs st) \<noteq> None" using b by simp
    show ?thesis
      using put_present [OF assms(1) b a False n] v'
        find_replace_first [OF ne o] filter_replace_first [OF o, of "docs st"]
      by (simp add: status_simps length_replace_first)
  qed
  show ?thesis
    using p u by blast
qed

theorem link_rule_witness:
  "fault quiet = None \<and> 2 \<le> length (trim (js ''Alice'')) \<and> length (trim (js ''Alice'')) \<le> 100 \<and>
   find (\<lambda>d. telegram_link d = trim (js ''https://t.me/abc'')) (docs two_docs) = None \<and>
   status (fst (post quiet (Some (js ''https://t.me/abc'')) (Some (js ''Alice'')) two_docs)) = 201 \<and>
   find (\<lambda>d. telegram_link d = trim (js ''https://t.me/abc'') \<and> oid d \<noteq> 1) (docs two_docs) = None \<and>
   find (\<lambda>d. oid d = 1) (docs two_docs) = Some marc \<and>
   status (fst (put quiet (Oid 1) (Some (js ''https://t.me/abc'')) (Some (js ''Alice'')) two_docs)) = 200 \<and>
   find (\<lambda>x. oid x = 1)
     (docs (snd (put quiet (Oid 1) (Some (js ''https://t.me/abc'')) (Some (js ''Alice'')) two_docs))) =
     Some \<lparr>oid = 1, telegram_link = js ''https://t.me/abc'', owner_name = js ''Alice'',
           createdAt = 2, updatedAt = 5\<rparr> \<and>
   find (\<lambda>d. telegram_link d = trim (js ''ftp://t.me/abc'')) (docs two_docs) = None \<and>
   status (fst (post quiet (Some (js ''ftp://t.me/abc'')) (Some (js ''Alice'')) two_docs)) = 400"
proof -
  have t: "trim (js ''https://t.me/abc'') = js ''https://t.me/abc''"
    "trim (js ''ftp://t.me/abc'') = js ''ftp://t.me/abc''" "trim (js ''Alice'') = js ''Alice''"
    by (simp_all add: trim_js space_defs)
  have a: "fault quiet = None" "2 \<le> length (trim (js ''Alice''))"
    "length (trim (js ''Alice'')) \<le> 100"
    by (simp_all add: quiet_def t length_js)
  have f: "find (\<lambda>d. telegram_link d = trim (js ''https://t.me/abc'')) (docs two_docs) = None"
    "find (\<lambda>d. telegram_link d = trim (js ''https://t.me/abc'') \<and> oid d \<noteq> 1) (docs two_docs) = None"
    "find (\<lambda>d. oid d = 1) (docs two_docs) = Some marc"
    "find (\<lambda>d. telegram_link d = trim (js ''ftp://t.me/abc'')) (docs two_docs) = None"
    by (simp_all add: t two_docs_def alice_def marc_def js_eq_iff)
  have v: "validator (trim (js ''https://t.me/abc''))" "\<not> validator (trim (js ''ftp://t.me/abc''))"
    unfolding t by (simp_all add: regex_defs)
  have m: "marc\<lparr>telegram_link := js ''https://t.me/abc'', owner_name := js ''Alice'',
      updatedAt := now quiet\<rparr> =
      \<lparr>oid = 1, telegram_link = js ''https://t.me/abc'', owner_name = js ''Alice'',
        createdAt = 2, updatedAt = 5\<rparr>"
    by (simp add: marc_def quiet_def)
  from link_rule [OF a, of "js ''https://t.me/abc''" two_docs 1 marc]
    link_rule [OF a, of "js ''ftp://t.me/abc''" two_docs 1 marc] a f v m
  show ?thesis by (simp add: t)
qed

subsection \<open>C7: the rule for \<open>owner_name\<close>\<close>

text \<open>
  C7: a create or an update whose other conditions are met (a link that matches the
  expression once trimmed, no other document with it, for an update a document with the
  identifier, the store answering) is accepted, with 201 or 200, if and only if the
  trimmed owner name has 2 to 100 code units, and is answered 400 otherwise.
\<close>

theorem owner_name_rule:
  assumes "fault e = None" and "validator (trim l)"
  shows
    "(find (\<lambda>d. telegram_link d = trim l) (docs st) = None \<longrightarrow>
        status (fst (post e (Some l) (Some n) st)) =
          (if 2 \<le> length (trim n) \<and> length (trim n) \<le> 100 then 201 else 400) \<and>
        docs (snd (post e (Some l) (Some n) st)) =
          (if 2 \<le> length (trim n) \<and> length (trim n) \<le> 100
           then docs st @ [\<lparr>oid = oid_counter st, telegram_link = trim l, owner_name = trim n,
                            createdAt = now e, updatedAt = now e\<rparr>]
           else docs st)) \<and>
     (find (\<lambda>d. telegram_link d = trim l \<and> oid d \<noteq> i) (docs st) = None \<and>
      find (\<lambda>d. oid d = i) (docs st) \<noteq> None \<longrightarrow>
        status (fst (put e (Oid i) (Some l) (Some n) st)) =
          (if 2 \<le> length (trim n) \<and> length (trim n) \<le> 100 then 200 else 400))"
proof (cases "n = []")
  case True
  then show ?thesis
    by (simp add: post_def put_def required_fields_Some status_simps trim_Nil)
next
  case False
  have l: "l \<noteq> []" using assms(2) validator_nonempty trim_nonempty by blast
  have v: "validate (trim l) (trim n) = [] \<longleftrightarrow> 2 \<le> length (trim n) \<and> length (trim n) \<le> 100"
    "validate_update (trim l) (trim n) = [] \<longleftrightarrow> 2 \<le> length (trim n) \<and> length (trim n) \<le> 100"
    using assms by (simp_all add: validate_Nil_iff validate_update_Nil_iff)
  show ?thesis
    using assms(1) False l v
    by (auto simp: post_fresh put_present status_simps)
qed

theorem owner_name_rule_witness:
  "fault quiet = None \<and> validator (trim (js ''https://t.me/abc'')) \<and>
   find (\<lambda>d. telegram_link d = trim (js ''https://t.me/abc'')) (docs two_docs) = None \<and>
   length (js ''ab'') = 2 \<and>
   status (fst (post quiet (Some (js ''https://t.me/abc'')) (Some (js ''ab'')) two_docs)) = 201 \<and>
   length (js ''a'') = 1 \<and>
   status (fst (post quiet (Some (js ''https://t.me/abc'')) (Some (js ''a'')) two_docs)) = 400 \<and>
   find (\<lambda>d. telegram_link d = trim (js ''https://t.me/abc'') \<and> oid d \<noteq> 1) (docs two_docs) = None \<and>
   find (\<lambda>d. oid d = 1) (docs two_docs) \<noteq> None \<and>
   status (fst (put quiet (Oid 1) (Some (js ''https://t.me/abc'')) (Some (js ''ab'')) two_docs)) = 200 \<and>
   status (fst (put quiet (Oid 1) (Some (js ''https://t.me/abc'')) (Some (js ''a'')) two_docs)) = 400"
proof -
  have t: "trim (js ''https://t.me/abc'') = js ''https://t.me/abc''"
    "trim (js ''ab'') = js ''ab''" "trim (js ''a'') = js ''a''"
    by (simp_all add: trim_js space_defs)
  have a: "fault quiet = None" "validator (trim (js ''https://t.me/abc''))"
    unfolding t by (simp_all add: quiet_def regex_defs)
  have f: "find (\<lambda>d. telegram_link d = trim (js ''https://t.me/abc'')) (docs two_docs) = None"
    "find (\<lambda>d. telegram_link d = trim (js ''https://t.me/abc'') \<and> oid d \<noteq> 1) (docs two_docs) = None"
    "find (\<lambda>d. oid d = 1) (docs two_docs) \<noteq> None"
    by (simp_all add: t two_docs_def alice_def marc_def js_eq_iff)
  have n: "length (trim (js ''ab'')) = 2" "length (trim (js ''a'')) = 1"
    "length (js ''ab'') = 2" "length (js ''a'') = 1"
    by (simp_all add: t length_js)
  from owner_name_rule [OF a, of two_docs "js ''ab''" 1]
    owner_name_rule [OF a, of two_docs "js ''a''" 1] a f n
  show ?thesis by simp
qed

text \<open>The answer to an owner name of one code unit is the validation error of the schema.\<close>

lemma one_char_owner_rejected:
  "post quiet (Some (js ''https://t.me/abc'')) (Some (js ''a'')) empty_state =
     (validation_failure [''Owner name must be at least 2 characters long''],
      empty_state\<lparr>oid_counter := 1\<rparr>)"
proof -
  have "validator (js ''https://t.me/abc'')" by (simp add: regex_defs)
  then have "validate (js ''https://t.me/abc'') (js ''a'') =
      [''Owner name must be at least 2 characters long'']"
    by (simp add: validate_def validate_telegram_link_def validate_owner_name_def length_js
        js_Nil_iff)
  then show ?thesis
    by (simp add: post_fresh quiet_def empty_state_def js_Nil_iff trim_js space_defs)
qed

subsection \<open>C8: the envelope\<close>

text \<open>
  C8: the body of every response of the six routes is an object with a boolean
  \<open>success\<close>, which is false exactly when the status is an error status (400 and above).
  When it is false the object has a string \<open>error\<close> and at most an array of strings
  \<open>details\<close> besides; when it is true the object has no key but \<open>data\<close>, \<open>message\<close>
  (a string) and \<open>pagination\<close> (an object) besides.
\<close>

theorem response_envelope:
  "enveloped (get_list rx e q st) \<and>
   enveloped (get_owners e st) \<and>
   enveloped (get_by_id e p st) \<and>
   enveloped (fst (post e tlink owner st)) \<and>
   enveloped (fst (put e p tlink owner st)) \<and>
   enveloped (fst (delete e p st))"
  by (simp add: enveloped_get_list enveloped_get_owners enveloped_get_by_id enveloped_post
      enveloped_put enveloped_delete)

subsection \<open>C9: a missing field\<close>

text \<open>
  C9: when \<open>telegram_link\<close> or \<open>owner_name\<close> is absent or the empty string, \<open>POST /\<close>
  and \<open>PUT /:id\<close> answer 400 with the two keys \<open>success\<close> and \<open>error\<close> and no
  \<open>details\<close>, and the state is unchanged. The answer is the same for every state, every
  identifier (also one that is not well formed) and every fault of the store: no store
  call and no validation comes before it.
\<close>

theorem missing_field_guard:
  "falsy tlink \<or> falsy owner \<Longrightarrow>
     post e tlink owner st =
       (\<lparr>status = 400,
         body = JObj [(''success'', JBool False),
                      (''error'', JStr (js ''Both telegram_link and owner_name are required''))]\<rparr>,
        st) \<and>
     put e p tlink owner st =
       (\<lparr>status = 400,
         body = JObj [(''success'', JBool False),
                      (''error'', JStr (js ''Both telegram_link and owner_name are required''))]\<rparr>,
        st)"
  by (simp add: post_def put_def required_fields_def missing_fields_def failure_def)

theorem missing_field_guard_witness:
  "falsy (Some []) \<and>
   post \<lparr>now = 5, fault = Some 0\<rparr> (Some []) (Some (js ''Carol'')) two_docs =
     (\<lparr>status = 400,
       body = JObj [(''success'', JBool False),
                    (''error'', JStr (js ''Both telegram_link and owner_name are required''))]\<rparr>,
      two_docs) \<and>
   put \<lparr>now = 5, fault = Some 0\<rparr> Malformed (Some []) (Some (js ''Carol'')) two_docs =
     (\<lparr>status = 400,
       body = JObj [(''success'', JBool False),
                    (''error'', JStr (js ''Both telegram_link and owner_name are required''))]\<rparr>,
      two_docs)"
proof -
  have f: "falsy (Some [])" by (simp add: falsy_def)
  then have "falsy (Some []) \<or> falsy (Some (js ''Carol''))" by simp
  from missing_field_guard [OF this] f show ?thesis by simp
qed

subsection \<open>C10: what a deletion leaves alone\<close>

text \<open>
  C10: \<open>DELETE /:id\<close> removes at most one document, and the documents with another
  identifier stay as they are and in their order; when the answer is not 200 (a 404, or a
  500) the state is unchanged.
\<close>

theorem delete_frame:
  "delete e p st = (r, st') \<Longrightarrow>
     oid_counter st' = oid_counter st \<and>
     length (docs st) \<le> Suc (length (docs st')) \<and>
     (case p of
        Malformed \<Rightarrow> st' = st \<and> status r = 500
      | Oid i \<Rightarrow>
          filter (\<lambda>d. oid d \<noteq> i) (docs st') = filter (\<lambda>d. oid d \<noteq> i) (docs st) \<and>
          (status r = 200 \<or> status r = 404 \<or> status r = 500) \<and>
          (status r \<noteq> 200 \<longrightarrow> st' = st))"
  by (auto simp: delete_def failure_def not_found_def deleted_def filter_remove_first
        length_remove_first
      split: id_param.splits option.splits if_splits)

theorem delete_frame_witness:
  "delete quiet (Oid 0) two_docs = (deleted, \<lparr>docs = [marc], oid_counter = 2\<rparr>) \<and>
   filter (\<lambda>d. oid d \<noteq> 0) [marc] = filter (\<lambda>d. oid d \<noteq> 0) (docs two_docs) \<and>
   delete quiet (Oid 7) two_docs = (not_found, two_docs)"
proof -
  have a: "delete quiet (Oid 0) two_docs = (deleted, \<lparr>docs = [marc], oid_counter = 2\<rparr>)"
    by (simp add: delete_def quiet_def two_docs_def alice_def marc_def)
  have b: "delete quiet (Oid 7) two_docs = (not_found, two_docs)"
    by (simp add: delete_def quiet_def two_docs_def alice_def marc_def)
  from delete_frame [OF a] a b show ?thesis by simp
qed

end
